theory Spec2Isabelle
  imports Complex_Main "HOL-Library.AList"
begin

section \<open>Data model of \<open>src/paxos/paxos.py\<close>\<close>

text \<open>
  The module implements one Paxos peer as the class \<open>Paxos\<close>. The embedding below keeps
  the class's attributes as a record, each dataclass as a type of its own, every raised
  exception as a value, and every method as a function from the peer's state to a
  result together with the state the call leaves behind (Python mutates the object in
  place, so the mutations made before an exception survive it).
\<close>

datatype Fate = DECIDED | PENDING | FORGOTTEN

text \<open>The exceptions the methods can raise.\<close>

datatype error =
    KeyError | ValueError | IndexError | AssertionError | AttributeError | RuntimeError
  | StopIteration

text \<open>
  The message dataclasses. Each subclass of \<open>Instance\<close> carries the field
  \<open>instance\<close> first; the remaining fields follow in the order of the dataclass.
\<close>

datatype PrepareRequest = PrepareRequest int int

datatype PrepareReply = PrepareReply int bool int string

datatype AcceptRequest = AcceptRequest int int string

datatype AcceptReply = AcceptReply int bool

datatype DecidedRequest = DecidedRequest int int int string

datatype DecidedReply = DecidedReply int

text \<open>
  \<open>message\<close> is the run-time class of a payload, the thing \<open>type(payload)\<close> inspects
  in \<open>put\<close>. The handlers themselves are annotated with the one class they read
  (\<open>request: PrepareRequest = packet.payload\<close>), so they take a packet of that class.
\<close>

datatype message =
    MPrepareRequest PrepareRequest
  | MPrepareReply PrepareReply
  | MAcceptRequest AcceptRequest
  | MAcceptReply AcceptReply
  | MDecidedRequest DecidedRequest
  | MDecidedReply DecidedReply

fun instance_of :: "message \<Rightarrow> int" where
  "instance_of (MPrepareRequest (PrepareRequest seq n)) = seq"
| "instance_of (MPrepareReply (PrepareReply seq ok n v)) = seq"
| "instance_of (MAcceptRequest (AcceptRequest seq n v)) = seq"
| "instance_of (MAcceptReply (AcceptReply seq ok)) = seq"
| "instance_of (MDecidedRequest (DecidedRequest seq sender dseq v)) = seq"
| "instance_of (MDecidedReply (DecidedReply seq)) = seq"

text \<open>
  \<open>Packet\<close> comes from the simulator; \<open>new_packet\<close> shows its fields: the creation
  time, the size, the packet id, source, destination and payload.
\<close>

record 'p packet =
  time :: nat
  pkt_size :: nat
  packet_id :: int
  src :: string
  dst :: string
  payload :: 'p

definition with_payload :: "'a packet \<Rightarrow> 'b \<Rightarrow> 'b packet" where
  "with_payload pkt x =
     \<lparr>time = time pkt, pkt_size = pkt_size pkt, packet_id = packet_id pkt,
      src = src pkt, dst = dst pkt, payload = x\<rparr>"

text \<open>The acceptor state of one instance (dataclass \<open>State\<close>).\<close>

record State =
  np :: int
  na :: int
  va :: string

text \<open>
  The proposer's bookkeeping of one round (dataclass \<open>ProposeInfo\<close>). The field
  \<open>packet_id\<close> of the source is \<open>info_packet_id\<close> here. \<open>finish_channel\<close> is a
  simulator \<open>Store\<close> that no method of the class ever puts into or reads from, except
  that the generator \<open>propose\<close> suspends on it; the suspension points are the stages of
  \<open>propose_gen\<close> below.
\<close>

record ProposeInfo =
  info_packet_id :: int
  maxna :: int
  v1 :: string
  prepare_count :: int
  prepared :: bool
  accept_count :: int
  accepted :: bool

definition new_info :: "int \<Rightarrow> ProposeInfo" where
  "new_info pid =
     \<lparr>info_packet_id = pid, maxna = 0, v1 = '''', prepare_count = 0, prepared = False,
      accept_count = 0, accepted = False\<rparr>"

definition reset :: "ProposeInfo \<Rightarrow> ProposeInfo" where
  "reset t = t\<lparr>maxna := 0, v1 := '''', prepare_count := 0, prepared := False,
               accept_count := 0, accepted := False\<rparr>"

text \<open>
  The peer. \<open>self_id\<close> is the attribute \<open>id\<close>, \<open>self_packet_id\<close> the attribute
  \<open>packet_id\<close>, \<open>decided\<close> the dictionary \<open>values\<close>. \<open>accept_state\<close> is kept in
  insertion order because \<open>do_mem_shrink\<close> iterates over it while deleting from it.
  \<open>ProposeInfo\<close> objects are shared between \<open>propose_data\<close> and the local variable
  \<open>temp\<close> of a suspended \<open>propose\<close>, so they live in the object store \<open>infos\<close>
  (an object is its index) and \<open>propose_data\<close> holds references; a reference is
  always an index of the store, since only \<open>broadcast_prepare_request\<close> makes one,
  for the object it appends. \<open>out\<close> is the
  outbound channel of \<open>SingleDevice\<close>. \<open>__init__\<close> does not set the attribute; the
  simulator does when it attaches the device. Here \<open>None\<close> means that the attribute
  is not set, so reading \<open>self.out\<close> raises \<open>AttributeError\<close>; an attached channel
  is an object, which \<open>assert self.out\<close> lets pass.
  \<open>now\<close> the simulator's clock, and \<open>timers\<close> the \<open>propose_timeout\<close> processes
  handed to \<open>env.process\<close>: the time they fire and the \<open>seq\<close> and \<open>v\<close> they closed
  over. The dictionaries \<open>prepare_stores\<close> and \<open>accept_stores\<close> are created empty and
  never touched again; they are left out.
\<close>

record paxos =
  peers :: "string list"
  me :: int
  self_id :: string
  phase_restart_time :: nat
  debug :: bool
  self_packet_id :: int
  max_seq_seen :: int
  done_seqs :: "int list"
  decided :: "int \<rightharpoonup> string"
  accept_state :: "(int \<times> State) list"
  propose_data :: "int \<rightharpoonup> nat"
  infos :: "ProposeInfo list"
  out :: "message packet list option"
  now :: nat
  timers :: "(nat \<times> int \<times> string) list"

type_synonym 'a result = "(error + 'a) \<times> paxos"

text \<open>
  Python list indexing: an index \<open>i\<close> with \<open>-len \<le> i < len\<close> is in range and a
  negative one counts from the end; anything else raises \<open>IndexError\<close>.
\<close>

definition py_pos :: "'a list \<Rightarrow> int \<Rightarrow> nat option" where
  "py_pos xs i =
     (if 0 \<le> i \<and> i < int (length xs) then Some (nat i)
      else if i < 0 \<and> - int (length xs) \<le> i then Some (nat (int (length xs) + i))
      else None)"

section \<open>The methods of \<open>Paxos\<close>\<close>

text \<open>
  \<open>__init__\<close>: \<open>self.id = peers[me]\<close> raises \<open>IndexError\<close> when \<open>me\<close> is out of
  range; otherwise every table starts empty and the counters at zero. The channel and
  the clock belong to the simulator and are parameters.
\<close>

definition fresh ::
  "string list \<Rightarrow> int \<Rightarrow> string \<Rightarrow> nat \<Rightarrow> bool \<Rightarrow> message packet list option \<Rightarrow> nat \<Rightarrow> paxos" where
  "fresh ps m ident restart dbg ch clk =
     \<lparr>peers = ps, me = m, self_id = ident, phase_restart_time = restart, debug = dbg,
      self_packet_id = 0, max_seq_seen = 0, done_seqs = [], decided = Map.empty,
      accept_state = [], propose_data = Map.empty, infos = [], out = ch, now = clk,
      timers = []\<rparr>"

definition init ::
  "string list \<Rightarrow> int \<Rightarrow> nat \<Rightarrow> bool \<Rightarrow> message packet list option \<Rightarrow> nat \<Rightarrow> error + paxos" where
  "init ps m restart dbg ch clk =
     (case py_pos ps m of
        None \<Rightarrow> Inl IndexError
      | Some i \<Rightarrow> Inr (fresh ps m (ps ! i) restart dbg ch clk))"

text \<open>\<open>new_packet\<close> increments the peer's packet counter and stamps the packet with it.\<close>

definition new_packet :: "message \<Rightarrow> string \<Rightarrow> paxos \<Rightarrow> message packet \<times> paxos" where
  "new_packet p d s =
     (let s1 = s\<lparr>self_packet_id := self_packet_id s + 1\<rparr>
      in (\<lparr>time = now s1, pkt_size = 40, packet_id = self_packet_id s1,
           src = self_id s1, dst = d, payload = p\<rparr>, s1))"

text \<open>
  \<open>send_packet_to\<close> sends nothing to the peer itself. For another peer the packet is
  built first and \<open>assert self.out\<close> comes after it; without the attribute the read
  raises.
\<close>

definition send_packet_to :: "message \<Rightarrow> string \<Rightarrow> paxos \<Rightarrow> unit result" where
  "send_packet_to p peer s =
     (if peer = self_id s then (Inr (), s)
      else (case new_packet p peer s of (pkt, s1) \<Rightarrow>
        (case out s1 of
           None \<Rightarrow> (Inl AttributeError, s1)
         | Some q \<Rightarrow> (Inr (), s1\<lparr>out := Some (q @ [pkt])\<rparr>))))"

text \<open>
  \<open>recv_prepare\<close>. The state object is mutated in place, so the entry keeps its
  position in the dictionary. The rejecting branch builds
  \<open>PrepareReply(seq, False, 0, "")\<close>.
\<close>

definition recv_prepare :: "PrepareRequest packet \<Rightarrow> paxos \<Rightarrow> unit result" where
  "recv_prepare pkt s =
     (case payload pkt of PrepareRequest seq n \<Rightarrow>
        (let s1 = (if seq > max_seq_seen s then s\<lparr>max_seq_seen := seq\<rparr> else s)
         in case map_of (accept_state s1) seq of
              None \<Rightarrow> (Inl KeyError, s1)
            | Some st \<Rightarrow>
                if n > np st then
                  (let st1 = st\<lparr>np := n\<rparr>;
                       s2 = s1\<lparr>accept_state := AList.update seq st1 (accept_state s1)\<rparr>
                   in send_packet_to (MPrepareReply (PrepareReply seq True (na st1) (va st1)))
                        (src pkt) s2)
                else send_packet_to (MPrepareReply (PrepareReply seq False 0 '''')) (src pkt) s1))"

definition recv_accept :: "AcceptRequest packet \<Rightarrow> paxos \<Rightarrow> unit result" where
  "recv_accept pkt s =
     (case payload pkt of AcceptRequest seq n v \<Rightarrow>
        (case map_of (accept_state s) seq of
           None \<Rightarrow> (Inl KeyError, s)
         | Some st \<Rightarrow>
             if n \<ge> np st then
               (let st1 = st\<lparr>np := n, na := n, va := v\<rparr>;
                    s1 = s\<lparr>accept_state := AList.update seq st1 (accept_state s)\<rparr>
                in send_packet_to (MAcceptReply (AcceptReply seq True)) (src pkt) s1)
             else send_packet_to (MAcceptReply (AcceptReply seq False)) (src pkt) s))"

text \<open>
  \<open>recv_prepare_reply\<close>. \<open>len(self.peers) / 2\<close> is true division, so the count is
  compared with a fraction.
\<close>

definition recv_prepare_reply :: "PrepareReply packet \<Rightarrow> paxos \<Rightarrow> unit result" where
  "recv_prepare_reply pkt s =
     (case payload pkt of PrepareReply seq ok n v \<Rightarrow>
        (case propose_data s seq of
           None \<Rightarrow> (Inl KeyError, s)
         | Some r \<Rightarrow>
             if ok then
               (let temp = infos s ! r;
                    temp1 = (if n > maxna temp then temp\<lparr>maxna := n, v1 := v\<rparr> else temp);
                    temp2 = temp1\<lparr>prepare_count := prepare_count temp1 + 1\<rparr>;
                    temp3 = (if real_of_int (prepare_count temp2) > real (length (peers s)) / 2
                             then temp2\<lparr>prepared := True\<rparr> else temp2)
                in (Inr (), s\<lparr>infos := (infos s)[r := temp3]\<rparr>))
             else
               (case map_of (accept_state s) seq of
                  None \<Rightarrow> (Inl KeyError, s)
                | Some st \<Rightarrow>
                    if n > np st
                    then (Inr (), s\<lparr>accept_state := AList.update seq (st\<lparr>np := n\<rparr>) (accept_state s)\<rparr>)
                    else (Inr (), s))))"

definition recv_accept_reply :: "AcceptReply packet \<Rightarrow> paxos \<Rightarrow> unit result" where
  "recv_accept_reply pkt s =
     (case payload pkt of AcceptReply seq ok \<Rightarrow>
        (case propose_data s seq of
           None \<Rightarrow> (Inl KeyError, s)
         | Some r \<Rightarrow>
             if ok then
               (let temp = infos s ! r;
                    temp1 = temp\<lparr>accept_count := accept_count temp + 1\<rparr>;
                    temp2 = (if real_of_int (accept_count temp1) > real (length (peers s)) / 2
                             then temp1\<lparr>accepted := True\<rparr> else temp1)
                in (Inr (), s\<lparr>infos := (infos s)[r := temp2]\<rparr>))
             else (Inr (), s)))"

text \<open>
  \<open>recv_decided_request\<close> stores the value before it indexes \<open>done_seqs\<close>, so the
  value stays recorded when the index is out of range.
\<close>

definition recv_decided_request :: "DecidedRequest packet \<Rightarrow> paxos \<Rightarrow> unit result" where
  "recv_decided_request pkt s =
     (case payload pkt of DecidedRequest seq sender dseq v \<Rightarrow>
        (let s1 = s\<lparr>decided := (decided s)(seq \<mapsto> v)\<rparr>
         in case py_pos (done_seqs s1) sender of
              None \<Rightarrow> (Inl IndexError, s1)
            | Some i \<Rightarrow>
                if done_seqs s1 ! i < dseq
                then (Inr (), s1\<lparr>done_seqs := (done_seqs s1)[i := dseq]\<rparr>)
                else (Inr (), s1)))"

text \<open>
  \<open>put\<close>, the inbound entry point. \<open>packet.dst\<close> is a string and \<open>self.me\<close> an
  integer, and Python never finds a string equal to an integer, so the first assertion
  holds exactly for the broadcast destination \<open>""\<close>. The second assertion holds for
  every message class. The comparison of packet ids stands before the dispatch on the
  class and applies to every class; \<open>dprint\<close> only prints.
\<close>

definition put :: "message packet \<Rightarrow> paxos \<Rightarrow> unit result" where
  "put pkt s =
     (if dst pkt \<noteq> '''' then (Inl AssertionError, s)
      else (case propose_data s (instance_of (payload pkt)) of
        None \<Rightarrow> (Inl KeyError, s)
      | Some r \<Rightarrow>
          if packet_id pkt \<noteq> info_packet_id (infos s ! r) then (Inr (), s)
          else (case payload pkt of
              MPrepareRequest m \<Rightarrow> recv_prepare (with_payload pkt m) s
            | MAcceptRequest m \<Rightarrow> recv_accept (with_payload pkt m) s
            | MPrepareReply m \<Rightarrow> recv_prepare_reply (with_payload pkt m) s
            | MAcceptReply m \<Rightarrow> recv_accept_reply (with_payload pkt m) s
            | MDecidedRequest m \<Rightarrow> recv_decided_request (with_payload pkt m) s
            | MDecidedReply m \<Rightarrow> (Inr (), s))))"

text \<open>
  The broadcasts enqueue the packet on the outbound channel and hand the same packet to
  the peer's own handler. \<open>broadcast_prepare_request\<close> replaces the round of the
  instance by a new \<open>ProposeInfo\<close> object that carries the packet's id.
\<close>

definition broadcast_prepare_request :: "int \<Rightarrow> int \<Rightarrow> paxos \<Rightarrow> unit result" where
  "broadcast_prepare_request seq n s =
     (case out s of
        None \<Rightarrow> (Inl AttributeError, s)
      | Some q \<Rightarrow>
          (case new_packet (MPrepareRequest (PrepareRequest seq n)) '''' s of (pkt, s1) \<Rightarrow>
             (let s2 = s1\<lparr>out := Some (q @ [pkt])\<rparr>;
                  s3 = s2\<lparr>propose_data := (propose_data s2)(seq \<mapsto> length (infos s2)),
                          infos := infos s2 @ [new_info (packet_id pkt)]\<rparr>
              in recv_prepare (with_payload pkt (PrepareRequest seq n)) s3)))"

definition broadcast_accept_request :: "int \<Rightarrow> int \<Rightarrow> string \<Rightarrow> paxos \<Rightarrow> unit result" where
  "broadcast_accept_request seq n v s =
     (case out s of
        None \<Rightarrow> (Inl AttributeError, s)
      | Some q \<Rightarrow>
          (case propose_data s seq of
             None \<Rightarrow> (Inl AssertionError, s)
           | Some r \<Rightarrow>
               (case new_packet (MAcceptRequest (AcceptRequest seq n v)) '''' s of (pkt, s1) \<Rightarrow>
                  recv_accept (with_payload pkt (AcceptRequest seq n v))
                    (s1\<lparr>out := Some (q @ [pkt])\<rparr>))))"

definition broadcast_decide_request :: "int \<Rightarrow> string \<Rightarrow> paxos \<Rightarrow> unit result" where
  "broadcast_decide_request seq v s =
     (case py_pos (done_seqs s) (me s) of
        None \<Rightarrow> (Inl IndexError, s)
      | Some i \<Rightarrow>
          (case new_packet (MDecidedRequest (DecidedRequest seq (me s) (done_seqs s ! i) v)) '''' s
           of (pkt, s1) \<Rightarrow>
             (case out s1 of
                None \<Rightarrow> (Inl AttributeError, s1)
              | Some q \<Rightarrow>
                  recv_decided_request
                    (with_payload pkt (DecidedRequest seq (me s) (done_seqs s ! i) v))
                    (s1\<lparr>out := Some (q @ [pkt])\<rparr>))))"

subsection \<open>The proposer: \<open>propose\<close>, its timeout and \<open>start\<close>\<close>

text \<open>
  The body of \<open>propose\<close> contains \<open>yield\<close>, so \<open>propose\<close> is a generator function:
  calling it runs none of its body and only returns a generator object, here a value
  of \<open>propose_gen\<close> in the stage \<open>Created\<close>. The body runs when the generator is
  advanced, one stretch per \<open>propose_next\<close>, up to the next \<open>yield\<close>:
  \<^item> from \<open>Created\<close>: read \<open>accept_state[seq].np\<close>, broadcast the Prepare, hand
    \<open>propose_timeout()\<close> to \<open>env.process\<close>, bind \<open>temp\<close> to the round's object, and
    suspend;
  \<^item> from \<open>Prepare_wait\<close>: \<open>assert temp.prepared\<close>, broadcast the Accept with the
    arguments \<open>seq, n, v\<close>, and suspend;
  \<^item> from \<open>Accept_wait\<close>: \<open>assert temp.accepted\<close>, broadcast the decision, and reach
    the end of the body, which the caller that advanced the generator sees as
    \<open>StopIteration\<close>.
  The suspended generator keeps \<open>seq\<close>, \<open>v\<close>, \<open>n\<close> and the reference \<open>temp\<close>.
  An exception ends the generator, and the end of the body is one; \<open>Finished\<close> is the
  ended generator, and advancing it raises \<open>StopIteration\<close> again.
\<close>

datatype propose_gen =
    Created int string
  | Prepare_wait int string int nat
  | Accept_wait int string int nat
  | Finished

definition propose :: "int \<Rightarrow> string \<Rightarrow> propose_gen" where
  "propose seq v = Created seq v"

fun propose_next :: "propose_gen \<Rightarrow> paxos \<Rightarrow> propose_gen result" where
  "propose_next (Created seq v) s =
     (case map_of (accept_state s) seq of
        None \<Rightarrow> (Inl KeyError, s)
      | Some st \<Rightarrow>
          (case broadcast_prepare_request seq (np st + 1) s of
             (Inl e, s1) \<Rightarrow> (Inl e, s1)
           | (Inr u, s1) \<Rightarrow>
               (let s2 = s1\<lparr>timers := timers s1 @ [(now s1 + phase_restart_time s1, seq, v)]\<rparr>
                in case propose_data s2 seq of
                     None \<Rightarrow> (Inl KeyError, s2)
                   | Some r \<Rightarrow> (Inr (Prepare_wait seq v (np st + 1) r), s2))))"
| "propose_next (Prepare_wait seq v n r) s =
     (if \<not> prepared (infos s ! r) then (Inl AssertionError, s)
      else (case broadcast_accept_request seq n v s of
              (Inl e, s1) \<Rightarrow> (Inl e, s1)
            | (Inr u, s1) \<Rightarrow> (Inr (Accept_wait seq v n r), s1)))"
| "propose_next (Accept_wait seq v n r) s =
     (if \<not> accepted (infos s ! r) then (Inl AssertionError, s)
      else (case broadcast_decide_request seq v s of
              (Inl e, s1) \<Rightarrow> (Inl e, s1)
            | (Inr u, s1) \<Rightarrow> (Inl StopIteration, s1)))"
| "propose_next Finished s = (Inl StopIteration, s)"

text \<open>
  \<open>propose_timeout\<close> after its delay: when the round is not both prepared and
  accepted it resets the round's object and calls \<open>self.propose(seq, v)\<close>, which
  creates a generator that nothing advances.
\<close>

definition propose_timeout :: "int \<Rightarrow> string \<Rightarrow> paxos \<Rightarrow> unit result" where
  "propose_timeout seq v s =
     (case propose_data s seq of
        None \<Rightarrow> (Inr (), s)
      | Some r \<Rightarrow>
          (let temp = infos s ! r
           in if \<not> (prepared temp \<and> accepted temp)
              then (let s1 = s\<lparr>infos := (infos s)[r := reset temp]\<rparr>;
                        g = propose seq v
                    in (Inr (), s1))
              else (Inr (), s)))"

text \<open>
  \<open>start\<close> raises \<open>max_seq_seen\<close> and calls \<open>self.propose(seq, v)\<close>; the generator
  it gets back is dropped.
\<close>

definition start :: "int \<Rightarrow> string \<Rightarrow> paxos \<Rightarrow> unit result" where
  "start seq v s =
     (let s1 = (if seq > max_seq_seen s then s\<lparr>max_seq_seen := seq\<rparr> else s);
          g = propose seq v
      in (Inr (), s1))"

subsection \<open>Forgetting and status\<close>

text \<open>
  \<open>do_mem_shrink\<close> iterates over the live keys of \<open>accept_state\<close> and deletes inside
  the loop. A Python dictionary iterator checks the size of the dictionary at every
  step, also at the step that would end the loop, so after the first deletion the loop
  raises \<open>RuntimeError\<close>; and \<open>del self.values[seq]\<close> raises \<open>KeyError\<close> first
  when the instance has no decided value. \<open>shrink_loop\<close> walks the keys in order up
  to that point.
\<close>

fun shrink_loop :: "int \<Rightarrow> int list \<Rightarrow> paxos \<Rightarrow> unit result" where
  "shrink_loop mins [] s = (Inr (), s)"
| "shrink_loop mins (seq # rest) s =
     (if seq \<le> mins then
        (let s1 = s\<lparr>accept_state := AList.delete seq (accept_state s)\<rparr>
         in case decided s1 seq of
              None \<Rightarrow> (Inl KeyError, s1)
            | Some v \<Rightarrow> (Inl RuntimeError, s1\<lparr>decided := (decided s1)(seq := None)\<rparr>))
      else shrink_loop mins rest s)"

definition do_mem_shrink :: "paxos \<Rightarrow> int result" where
  "do_mem_shrink s =
     (case done_seqs s of
        [] \<Rightarrow> (Inl ValueError, s)
      | d # ds \<Rightarrow>
          (let mins = Min (set (d # ds))
           in case shrink_loop mins (map fst (accept_state s)) s of
                (Inl e, s1) \<Rightarrow> (Inl e, s1)
              | (Inr u, s1) \<Rightarrow> (Inr (mins + 1), s1)))"

text \<open>The method \<open>min\<close>.\<close>

definition paxos_min :: "paxos \<Rightarrow> int result" where
  "paxos_min s =
     (case do_mem_shrink s of
        (Inl e, s1) \<Rightarrow> (Inl e, s1)
      | (Inr m, s1) \<Rightarrow> (Inr (m + 1), s1))"

definition status :: "int \<Rightarrow> paxos \<Rightarrow> (Fate \<times> string) result" where
  "status seq s =
     (case paxos_min s of
        (Inl e, s1) \<Rightarrow> (Inl e, s1)
      | (Inr m, s1) \<Rightarrow>
          if seq < m then (Inr (FORGOTTEN, ''''), s1)
          else (case decided s1 seq of
                  Some v \<Rightarrow> (Inr (DECIDED, v), s1)
                | None \<Rightarrow> (Inr (PENDING, ''''), s1)))"

definition is_decided :: "int \<Rightarrow> paxos \<Rightarrow> bool result" where
  "is_decided seq s =
     (case status seq s of
        (Inl e, s1) \<Rightarrow> (Inl e, s1)
      | (Inr fv, s1) \<Rightarrow> (Inr (fst fv = DECIDED), s1))"

subsection \<open>Sequences of calls\<close>

text \<open>
  One constructor per way of entering the class: every method, and the two pieces of
  code the simulator runs later (advancing a \<open>propose\<close> generator, firing a
  \<open>propose_timeout\<close>). The method \<open>run\<close> of the source does nothing and
  \<open>dprint\<close> only prints, so neither has a constructor. \<open>exec\<close> is the state a
  call leaves behind, whether it returned or raised; \<open>perform\<close> makes a sequence of
  calls.
\<close>

datatype op =
    Start int string
  | Advance propose_gen
  | Timeout int string
  | DoMemShrink
  | MinCall
  | Status int
  | IsDecided int
  | NewPacket message string
  | SendPacketTo message string
  | BroadcastPrepare int int
  | BroadcastAccept int int string
  | BroadcastDecide int string
  | RecvPrepare "PrepareRequest packet"
  | RecvAccept "AcceptRequest packet"
  | RecvPrepareReply "PrepareReply packet"
  | RecvAcceptReply "AcceptReply packet"
  | RecvDecided "DecidedRequest packet"
  | Put "message packet"

fun exec :: "op \<Rightarrow> paxos \<Rightarrow> paxos" where
  "exec (Start seq v) s = snd (start seq v s)"
| "exec (Advance g) s = snd (propose_next g s)"
| "exec (Timeout seq v) s = snd (propose_timeout seq v s)"
| "exec DoMemShrink s = snd (do_mem_shrink s)"
| "exec MinCall s = snd (paxos_min s)"
| "exec (Status seq) s = snd (status seq s)"
| "exec (IsDecided seq) s = snd (is_decided seq s)"
| "exec (NewPacket p d) s = snd (new_packet p d s)"
| "exec (SendPacketTo p peer) s = snd (send_packet_to p peer s)"
| "exec (BroadcastPrepare seq n) s = snd (broadcast_prepare_request seq n s)"
| "exec (BroadcastAccept seq n v) s = snd (broadcast_accept_request seq n v s)"
| "exec (BroadcastDecide seq v) s = snd (broadcast_decide_request seq v s)"
| "exec (RecvPrepare pkt) s = snd (recv_prepare pkt s)"
| "exec (RecvAccept pkt) s = snd (recv_accept pkt s)"
| "exec (RecvPrepareReply pkt) s = snd (recv_prepare_reply pkt s)"
| "exec (RecvAcceptReply pkt) s = snd (recv_accept_reply pkt s)"
| "exec (RecvDecided pkt) s = snd (recv_decided_request pkt s)"
| "exec (Put pkt) s = snd (put pkt s)"

fun perform :: "op list \<Rightarrow> paxos \<Rightarrow> paxos" where
  "perform [] s = s"
| "perform (c # cs) s = perform cs (exec c s)"

text \<open>
  The calls that the acceptor-state claims range over, and what it means for such a call
  to be an Accept for instance \<open>seq\<close> that the entry \<open>st\<close> takes and that leaves the
  entry \<open>st'\<close>.
\<close>

fun acceptor_op :: "op \<Rightarrow> bool" where
  "acceptor_op (RecvPrepare pkt) = True"
| "acceptor_op (RecvAccept pkt) = True"
| "acceptor_op (RecvPrepareReply pkt) = True"
| "acceptor_op c = False"

fun accepts :: "int \<Rightarrow> State \<Rightarrow> op \<Rightarrow> State \<Rightarrow> bool" where
  "accepts seq st (RecvAccept pkt) st' =
     (case payload pkt of AcceptRequest i n v \<Rightarrow>
        i = seq \<and> np st \<le> n \<and> np st' = n \<and> na st' = n \<and> va st' = v)"
| "accepts seq st c st' = False"

text \<open>
  The calls that deliver a message to the peer, directly to a handler or through
  \<open>put\<close>, and the peer the message came from.
\<close>

fun delivery :: "op \<Rightarrow> bool" where
  "delivery (RecvPrepare pkt) = True"
| "delivery (RecvAccept pkt) = True"
| "delivery (RecvPrepareReply pkt) = True"
| "delivery (RecvAcceptReply pkt) = True"
| "delivery (RecvDecided pkt) = True"
| "delivery (Put pkt) = True"
| "delivery c = False"

fun op_src :: "op \<Rightarrow> string" where
  "op_src (RecvPrepare pkt) = src pkt"
| "op_src (RecvAccept pkt) = src pkt"
| "op_src (RecvPrepareReply pkt) = src pkt"
| "op_src (RecvAcceptReply pkt) = src pkt"
| "op_src (RecvDecided pkt) = src pkt"
| "op_src (Put pkt) = src pkt"
| "op_src c = ''''"

text \<open>
  A delivery that the round of instance \<open>seq\<close> with packet id \<open>tok\<close> tallies as an
  affirmative Prepare reply, or as an affirmative Accept reply: the handler called with
  such a reply, or \<open>put\<close> called with one that passes its two checks. \<open>repliers\<close>
  are the distinct peers such deliveries came from.
\<close>

fun prepare_ack :: "int \<Rightarrow> int \<Rightarrow> op \<Rightarrow> bool" where
  "prepare_ack seq tok (RecvPrepareReply pkt) =
     (case payload pkt of PrepareReply i ok n v \<Rightarrow> i = seq \<and> ok)"
| "prepare_ack seq tok (Put pkt) =
     (dst pkt = '''' \<and> packet_id pkt = tok \<and>
      (case payload pkt of
         MPrepareReply m \<Rightarrow> (case m of PrepareReply i ok n v \<Rightarrow> i = seq \<and> ok)
       | _ \<Rightarrow> False))"
| "prepare_ack seq tok c = False"

fun accept_ack :: "int \<Rightarrow> int \<Rightarrow> op \<Rightarrow> bool" where
  "accept_ack seq tok (RecvAcceptReply pkt) =
     (case payload pkt of AcceptReply i ok \<Rightarrow> i = seq \<and> ok)"
| "accept_ack seq tok (Put pkt) =
     (dst pkt = '''' \<and> packet_id pkt = tok \<and>
      (case payload pkt of
         MAcceptReply m \<Rightarrow> (case m of AcceptReply i ok \<Rightarrow> i = seq \<and> ok)
       | _ \<Rightarrow> False))"
| "accept_ack seq tok c = False"

definition repliers :: "(op \<Rightarrow> bool) \<Rightarrow> op list \<Rightarrow> string list" where
  "repliers ack cs = remdups (map op_src (filter ack cs))"

text \<open>
  \<open>sole_ref s seq r\<close>: the round of instance \<open>seq\<close> is the object \<open>r\<close> of the
  store, and no other instance shares it (\<open>broadcast_prepare_request\<close> makes a new
  object for every round). \<open>count_prepare_ok\<close> and \<open>count_accept_ok\<close> are what the
  two reply handlers do to the round object on an affirmative reply, and \<open>round_inv\<close> is
  the invariant of the tallies \<open>p\<close> and \<open>a\<close> used in the proofs.
\<close>

definition sole_ref :: "paxos \<Rightarrow> int \<Rightarrow> nat \<Rightarrow> bool" where
  "sole_ref s seq r =
     (propose_data s seq = Some r \<and> r < length (infos s) \<and>
      (\<forall>i. propose_data s i = Some r \<longrightarrow> i = seq))"

definition count_prepare_ok :: "nat \<Rightarrow> int \<Rightarrow> string \<Rightarrow> ProposeInfo \<Rightarrow> ProposeInfo" where
  "count_prepare_ok k n v temp =
     (let temp1 = (if n > maxna temp then temp\<lparr>maxna := n, v1 := v\<rparr> else temp);
          temp2 = temp1\<lparr>prepare_count := prepare_count temp1 + 1\<rparr>
      in if real_of_int (prepare_count temp2) > real k / 2
         then temp2\<lparr>prepared := True\<rparr> else temp2)"

definition count_accept_ok :: "nat \<Rightarrow> ProposeInfo \<Rightarrow> ProposeInfo" where
  "count_accept_ok k temp =
     (let temp1 = temp\<lparr>accept_count := accept_count temp + 1\<rparr>
      in if real_of_int (accept_count temp1) > real k / 2
         then temp1\<lparr>accepted := True\<rparr> else temp1)"

definition round_inv :: "paxos \<Rightarrow> int \<Rightarrow> nat \<Rightarrow> int \<Rightarrow> nat \<Rightarrow> nat \<Rightarrow> bool" where
  "round_inv s seq r tok p a =
     (sole_ref s seq r \<and> info_packet_id (infos s ! r) = tok \<and>
      prepare_count (infos s ! r) = int p \<and> accept_count (infos s ! r) = int a \<and>
      (prepared (infos s ! r) \<longrightarrow> length (peers s) < 2 * p) \<and>
      (accepted (infos s ! r) \<longrightarrow> length (peers s) < 2 * a))"

subsection \<open>Concrete peers\<close>

text \<open>
  Peer \<open>a\<close> of the cluster \<open>a, b, c\<close>, just constructed, with its channel attached;
  and a packet as peer \<open>b\<close> broadcasts it.
\<close>

definition abc_peer :: paxos where
  "abc_peer = fresh [''a'', ''b'', ''c''] 0 ''a'' 10 False (Some []) 0"

definition from_b :: "int \<Rightarrow> 'p \<Rightarrow> 'p packet" where
  "from_b k p = \<lparr>time = 0, pkt_size = 40, packet_id = k, src = ''b'', dst = '''', payload = p\<rparr>"

text \<open>The same peer holding the default acceptor entry for instance 3.\<close>

definition default_peer :: paxos where
  "default_peer = abc_peer\<lparr>accept_state := [(3, \<lparr>np = 0, na = 0, va = ''''\<rparr>)]\<rparr>"

text \<open>The peer after it promised proposal 5 and accepted proposal 2 for instance 3.\<close>

definition promised_peer :: paxos where
  "promised_peer = abc_peer\<lparr>accept_state := [(3, \<lparr>np = 5, na = 2, va = ''x''\<rparr>)]\<rparr>"

text \<open>The peer knowing the done watermarks 4, 2 and 7 of the three peers.\<close>

definition watermarked_peer :: paxos where
  "watermarked_peer = abc_peer\<lparr>done_seqs := [4, 2, 7]\<rparr>"

text \<open>
  The scenario of instance 12: the peer has seen proposal 5 for it, starts a round of
  its own for the value \<open>y\<close> (\<open>proposing_peer\<close>, the state after the generator's first
  stretch), and then receives two affirmative Prepare replies of that round, the one
  from \<open>b\<close> reporting the accepted pair \<open>(5, x)\<close> (\<open>prepared_peer\<close>).
\<close>

definition ready_peer :: paxos where
  "ready_peer = abc_peer\<lparr>accept_state := [(12, \<lparr>np = 5, na = 0, va = ''''\<rparr>)],
                         done_seqs := [-1, -1, -1]\<rparr>"

definition proposing_peer :: paxos where
  "proposing_peer = snd (propose_next (propose 12 ''y'') ready_peer)"

definition prepared_peer :: paxos where
  "prepared_peer =
     perform [Put (from_b 1 (MPrepareReply (PrepareReply 12 True 5 ''x''))),
          Put \<lparr>time = 0, pkt_size = 40, packet_id = 1, src = ''c'', dst = '''',
               payload = MPrepareReply (PrepareReply 12 True 0 '''')\<rparr>] proposing_peer"

subsection \<open>Several peers\<close>










section \<open>What each method leaves unchanged\<close>

lemma py_pos_Nil: "py_pos [] i = None"
  by (simp add: py_pos_def)

lemma snd_pass:
  "snd (case p of (Inl e, s1) \<Rightarrow> (Inl e, s1) | (Inr u, s1) \<Rightarrow> (k u, s1)) = snd p"
  by (auto split: prod.splits sum.splits)

lemma run_append: "perform (cs @ ds) s = perform ds (perform cs s)"
  by (induction cs arbitrary: s) simp_all

lemma new_packet_frame:
  "done_seqs (snd (new_packet p d s)) = done_seqs s"
  "accept_state (snd (new_packet p d s)) = accept_state s"
  "propose_data (snd (new_packet p d s)) = propose_data s"
  "infos (snd (new_packet p d s)) = infos s"
  "peers (snd (new_packet p d s)) = peers s"
  "out (snd (new_packet p d s)) = out s"
  by (simp_all add: new_packet_def Let_def)

lemma send_packet_to_frame:
  "done_seqs (snd (send_packet_to p peer s)) = done_seqs s"
  "accept_state (snd (send_packet_to p peer s)) = accept_state s"
  "propose_data (snd (send_packet_to p peer s)) = propose_data s"
  "infos (snd (send_packet_to p peer s)) = infos s"
  "peers (snd (send_packet_to p peer s)) = peers s"
  by (simp_all add: send_packet_to_def new_packet_def Let_def split: option.splits)

lemma recv_prepare_frame:
  "done_seqs (snd (recv_prepare pkt s)) = done_seqs s"
  "propose_data (snd (recv_prepare pkt s)) = propose_data s"
  "infos (snd (recv_prepare pkt s)) = infos s"
  "peers (snd (recv_prepare pkt s)) = peers s"
  by (cases "payload pkt";
      simp add: recv_prepare_def Let_def send_packet_to_frame split: option.splits)+

lemma recv_prepare_accept_state:
  "payload pkt = PrepareRequest seq n \<Longrightarrow>
   accept_state (snd (recv_prepare pkt s)) =
     (case map_of (accept_state s) seq of
        None \<Rightarrow> accept_state s
      | Some st \<Rightarrow> if n > np st then AList.update seq (st\<lparr>np := n\<rparr>) (accept_state s)
                   else accept_state s)"
  by (simp add: recv_prepare_def Let_def send_packet_to_frame split: option.splits)

lemma recv_accept_frame:
  "done_seqs (snd (recv_accept pkt s)) = done_seqs s"
  "propose_data (snd (recv_accept pkt s)) = propose_data s"
  "infos (snd (recv_accept pkt s)) = infos s"
  "peers (snd (recv_accept pkt s)) = peers s"
  by (cases "payload pkt";
      simp add: recv_accept_def Let_def send_packet_to_frame split: option.splits)+

lemma recv_accept_accept_state:
  "payload pkt = AcceptRequest seq n v \<Longrightarrow>
   accept_state (snd (recv_accept pkt s)) =
     (case map_of (accept_state s) seq of
        None \<Rightarrow> accept_state s
      | Some st \<Rightarrow> if n \<ge> np st then AList.update seq (st\<lparr>np := n, na := n, va := v\<rparr>) (accept_state s)
                   else accept_state s)"
  by (simp add: recv_accept_def Let_def send_packet_to_frame split: option.splits)

lemma recv_prepare_reply_frame:
  "done_seqs (snd (recv_prepare_reply pkt s)) = done_seqs s"
  "propose_data (snd (recv_prepare_reply pkt s)) = propose_data s"
  "length (infos (snd (recv_prepare_reply pkt s))) = length (infos s)"
  "peers (snd (recv_prepare_reply pkt s)) = peers s"
  by (cases "payload pkt";
      simp add: recv_prepare_reply_def Let_def split: option.splits)+

lemma recv_prepare_reply_accept_state:
  "payload pkt = PrepareReply seq ok n v \<Longrightarrow>
   accept_state (snd (recv_prepare_reply pkt s)) =
     (case map_of (accept_state s) seq of
        None \<Rightarrow> accept_state s
      | Some st \<Rightarrow> if \<not> ok \<and> propose_data s seq \<noteq> None \<and> n > np st
                   then AList.update seq (st\<lparr>np := n\<rparr>) (accept_state s)
                   else accept_state s)"
  by (auto simp add: recv_prepare_reply_def Let_def split: option.splits)

lemma recv_accept_reply_frame:
  "done_seqs (snd (recv_accept_reply pkt s)) = done_seqs s"
  "accept_state (snd (recv_accept_reply pkt s)) = accept_state s"
  "propose_data (snd (recv_accept_reply pkt s)) = propose_data s"
  "length (infos (snd (recv_accept_reply pkt s))) = length (infos s)"
  "peers (snd (recv_accept_reply pkt s)) = peers s"
  by (cases "payload pkt";
      simp add: recv_accept_reply_def Let_def split: option.splits)+

lemma recv_decided_request_frame:
  "length (done_seqs (snd (recv_decided_request pkt s))) = length (done_seqs s)"
  "accept_state (snd (recv_decided_request pkt s)) = accept_state s"
  "propose_data (snd (recv_decided_request pkt s)) = propose_data s"
  "infos (snd (recv_decided_request pkt s)) = infos s"
  "peers (snd (recv_decided_request pkt s)) = peers s"
  by (cases "payload pkt";
      simp add: recv_decided_request_def Let_def split: option.splits)+

lemma accept_state_empty_recv:
  assumes "accept_state s = []"
  shows "accept_state (snd (recv_prepare pkt s)) = []"
    and "accept_state (snd (recv_accept pkt' s)) = []"
    and "accept_state (snd (recv_prepare_reply pkt'' s)) = []"
  using assms
  by (cases "payload pkt"; cases "payload pkt'"; cases "payload pkt''";
      simp add: recv_prepare_accept_state recv_accept_accept_state recv_prepare_reply_accept_state)+

lemma put_done_len: "length (done_seqs (snd (put pkt s))) = length (done_seqs s)"
  by (simp add: put_def recv_prepare_frame recv_accept_frame recv_prepare_reply_frame
      recv_accept_reply_frame recv_decided_request_frame split: option.splits message.splits)

lemma put_accept_empty: "accept_state s = [] \<Longrightarrow> accept_state (snd (put pkt s)) = []"
  by (simp add: put_def accept_state_empty_recv
      recv_accept_reply_frame recv_decided_request_frame split: option.splits message.splits)

lemma broadcast_prepare_done_len:
  "length (done_seqs (snd (broadcast_prepare_request seq n s))) = length (done_seqs s)"
  by (simp add: broadcast_prepare_request_def new_packet_def Let_def recv_prepare_frame
      split: option.splits)

lemma broadcast_prepare_accept_empty:
  "accept_state s = [] \<Longrightarrow> accept_state (snd (broadcast_prepare_request seq n s)) = []"
  by (simp add: broadcast_prepare_request_def new_packet_def Let_def accept_state_empty_recv
      split: option.splits)

lemma broadcast_accept_done_len:
  "length (done_seqs (snd (broadcast_accept_request seq n v s))) = length (done_seqs s)"
  by (simp add: broadcast_accept_request_def new_packet_def Let_def recv_accept_frame
      split: option.splits)

lemma broadcast_accept_accept_empty:
  "accept_state s = [] \<Longrightarrow> accept_state (snd (broadcast_accept_request seq n v s)) = []"
  by (simp add: broadcast_accept_request_def new_packet_def Let_def accept_state_empty_recv
      split: option.splits)

lemma broadcast_decide_done_len:
  "length (done_seqs (snd (broadcast_decide_request seq v s))) = length (done_seqs s)"
  by (simp add: broadcast_decide_request_def new_packet_def Let_def recv_decided_request_frame
      split: option.splits)

lemma broadcast_decide_accept_empty:
  "accept_state s = [] \<Longrightarrow> accept_state (snd (broadcast_decide_request seq v s)) = []"
  by (simp add: broadcast_decide_request_def new_packet_def Let_def recv_decided_request_frame
      split: option.splits)

lemma propose_next_Created_snd:
  "snd (propose_next (Created seq v) s) =
     (case map_of (accept_state s) seq of
        None \<Rightarrow> s
      | Some st \<Rightarrow>
          (case fst (broadcast_prepare_request seq (np st + 1) s) of
             Inl e \<Rightarrow> snd (broadcast_prepare_request seq (np st + 1) s)
           | Inr u \<Rightarrow> (snd (broadcast_prepare_request seq (np st + 1) s))
               \<lparr>timers := timers (snd (broadcast_prepare_request seq (np st + 1) s)) @
                  [(now (snd (broadcast_prepare_request seq (np st + 1) s)) +
                    phase_restart_time (snd (broadcast_prepare_request seq (np st + 1) s)), seq, v)]\<rparr>))"
  by (auto simp: Let_def split: option.splits prod.splits sum.splits)

lemma propose_next_done_len:
  "length (done_seqs (snd (propose_next g s))) = length (done_seqs s)"
  by (cases g)
     (simp_all add: snd_pass propose_next_Created_snd broadcast_prepare_done_len
        broadcast_accept_done_len broadcast_decide_done_len del: propose_next.simps(1)
        split: option.splits sum.splits)

lemma propose_next_accept_empty:
  "accept_state s = [] \<Longrightarrow> accept_state (snd (propose_next g s)) = []"
  by (cases g)
     (simp_all add: snd_pass propose_next_Created_snd
        broadcast_accept_accept_empty broadcast_decide_accept_empty)

lemma shrink_loop_done: "done_seqs (snd (shrink_loop m ks s)) = done_seqs s"
  by (induction m ks s rule: shrink_loop.induct) (simp_all add: Let_def split: option.splits)

lemma do_mem_shrink_done: "done_seqs (snd (do_mem_shrink s)) = done_seqs s"
  by (simp add: do_mem_shrink_def Let_def snd_pass shrink_loop_done split: list.splits)

lemma do_mem_shrink_empty: "done_seqs s = [] \<Longrightarrow> do_mem_shrink s = (Inl ValueError, s)"
  by (simp add: do_mem_shrink_def)

lemma do_mem_shrink_accept_empty:
  "accept_state s = [] \<Longrightarrow> accept_state (snd (do_mem_shrink s)) = []"
  by (simp add: do_mem_shrink_def Let_def split: list.splits)

lemma paxos_min_snd: "snd (paxos_min s) = snd (do_mem_shrink s)"
  by (simp add: paxos_min_def snd_pass)

lemma status_snd: "snd (status seq s) = snd (do_mem_shrink s)"
  using paxos_min_snd [of s]
  by (auto simp: status_def split: prod.splits sum.splits option.splits)

lemma is_decided_snd: "snd (is_decided seq s) = snd (do_mem_shrink s)"
  using status_snd [of seq s]
  by (auto simp: is_decided_def split: prod.splits sum.splits)

lemma exec_done_len: "length (done_seqs (exec c s)) = length (done_seqs s)"
  by (cases c)
     (simp_all add: start_def propose_next_done_len propose_timeout_def Let_def
        do_mem_shrink_done paxos_min_snd status_snd is_decided_snd new_packet_frame
        send_packet_to_frame broadcast_prepare_done_len broadcast_accept_done_len
        broadcast_decide_done_len recv_prepare_frame recv_accept_frame recv_prepare_reply_frame
        recv_accept_reply_frame recv_decided_request_frame put_done_len split: option.splits)

lemma exec_accept_empty: "accept_state s = [] \<Longrightarrow> accept_state (exec c s) = []"
  by (cases c)
     (simp_all add: start_def propose_next_accept_empty propose_timeout_def Let_def
        do_mem_shrink_accept_empty paxos_min_snd status_snd is_decided_snd new_packet_frame
        send_packet_to_frame broadcast_prepare_accept_empty broadcast_accept_accept_empty
        broadcast_decide_accept_empty accept_state_empty_recv
        recv_accept_reply_frame recv_decided_request_frame put_accept_empty split: option.splits)

lemma run_done_len: "length (done_seqs (perform cs s)) = length (done_seqs s)"
  by (induction cs arbitrary: s) (simp_all add: exec_done_len)

lemma run_accept_empty: "accept_state s = [] \<Longrightarrow> accept_state (perform cs s) = []"
  by (induction cs arbitrary: s) (simp_all add: exec_accept_empty)

section \<open>The acceptor\<close>

lemma acceptor_step:
  assumes e: "map_of (accept_state s) seq = Some st" and le: "na st \<le> np st"
    and c: "acceptor_op c"
  shows "\<exists>st'. map_of (accept_state (exec c s)) seq = Some st' \<and> np st \<le> np st' \<and>
           na st' \<le> np st' \<and> na st \<le> na st' \<and>
           ((na st' = na st \<and> va st' = va st) \<or> accepts seq st c st')"
proof (cases c)
  case (RecvPrepare pkt)
  obtain i n where p: "payload pkt = PrepareRequest i n" by (cases "payload pkt")
  show ?thesis
    using e le
    by (cases "i = seq")
       (auto simp: RecvPrepare recv_prepare_accept_state [OF p] update_conv'
          split: option.splits)
next
  case (RecvAccept pkt)
  obtain i n v where p: "payload pkt = AcceptRequest i n v" by (cases "payload pkt")
  show ?thesis
    using e le
    by (cases "i = seq")
       (auto simp: RecvAccept p recv_accept_accept_state [OF p] update_conv'
          split: option.splits)
next
  case (RecvPrepareReply pkt)
  obtain i ok n v where p: "payload pkt = PrepareReply i ok n v" by (cases "payload pkt")
  show ?thesis
    using e le
    by (cases "i = seq")
       (auto simp: RecvPrepareReply recv_prepare_reply_accept_state [OF p] update_conv'
          split: option.splits)
qed (use c in simp_all)

lemma acceptor_run:
  assumes "map_of (accept_state s) seq = Some st" and "na st \<le> np st"
    and "list_all acceptor_op cs"
  shows "\<exists>st'. map_of (accept_state (perform cs s)) seq = Some st' \<and> np st \<le> np st' \<and>
           na st' \<le> np st'"
  using assms
proof (induction cs arbitrary: s st)
  case Nil
  then show ?case by simp
next
  case (Cons c cs)
  from Cons.prems obtain st1 where
    s1: "map_of (accept_state (exec c s)) seq = Some st1" "np st \<le> np st1" "na st1 \<le> np st1"
    using acceptor_step [of s seq st c] by auto
  from Cons.IH [OF s1(1) s1(3)] Cons.prems(3) s1(2) show ?case
    by fastforce
qed

text \<open>
  What \<open>recv_prepare\<close> answers to another peer: the last packet it enqueues, and the
  acceptor entry it leaves.
\<close>

lemma recv_prepare_reply_sent:
  assumes "payload pkt = PrepareRequest seq n" and "map_of (accept_state s) seq = Some st"
    and "src pkt \<noteq> self_id s" and "out s = Some q"
  shows "map_option (\<lambda>ps. (dst (last ps), payload (last ps))) (out (snd (recv_prepare pkt s))) =
           Some (src pkt,
                 if n > np st then MPrepareReply (PrepareReply seq True (na st) (va st))
                 else MPrepareReply (PrepareReply seq False 0 ''''))"
    and "map_of (accept_state (snd (recv_prepare pkt s))) seq =
           Some (if n > np st then st\<lparr>np := n\<rparr> else st)"
  using assms
  by (simp_all add: recv_prepare_def send_packet_to_def new_packet_def Let_def update_conv')

text \<open>
  C5. A Prepare whose number does not exceed the promise is rejected without a change of
  the acceptor entry, but the reply does not carry the acceptor's \<open>np\<close>: the peer that
  promised 5 for instance 3 answers the Prepare numbered 4 from \<open>b\<close> with
  \<open>PrepareReply(3, False, 0, "")\<close>. The only other effects are the packet counter and
  \<open>max_seq_seen\<close>.
\<close>

theorem reject_reply_carries_zero:
  "recv_prepare (from_b 1 (PrepareRequest 3 4)) promised_peer =
     (Inr (), promised_peer\<lparr>max_seq_seen := 3, self_packet_id := 1,
        out := Some [\<lparr>time = 0, pkt_size = 40, packet_id = 1, src = ''a'', dst = ''b'',
                      payload = MPrepareReply (PrepareReply 3 False 0 '''')\<rparr>]\<rparr>)"
  by (simp add: recv_prepare_def send_packet_to_def new_packet_def promised_peer_def abc_peer_def
      fresh_def from_b_def Let_def)

text \<open>
  C6, as the code has it. Take an acceptor entry with \<open>na \<le> np\<close> and any sequence of
  calls of \<open>recv_prepare\<close>, \<open>recv_accept\<close> and \<open>recv_prepare_reply\<close>. The entry is
  there after every call, \<open>np\<close> and \<open>na\<close> never decrease, \<open>na \<le> np\<close> holds after
  every call, and a call changes \<open>na\<close> or \<open>va\<close> only when it is an Accept for the
  instance whose number is at least the entry's current \<open>np\<close> (hence at least its
  \<open>na\<close>); the entry then holds that number and that value.
\<close>

theorem acceptor_entry_steps:
  assumes "map_of (accept_state s) seq = Some st0" and "na st0 \<le> np st0"
    and "list_all acceptor_op (cs @ [c])"
  shows "\<exists>st1 st2. map_of (accept_state (perform cs s)) seq = Some st1 \<and>
           map_of (accept_state (perform (cs @ [c]) s)) seq = Some st2 \<and>
           np st0 \<le> np st1 \<and> na st1 \<le> np st1 \<and>
           np st1 \<le> np st2 \<and> na st2 \<le> np st2 \<and> na st1 \<le> na st2 \<and>
           ((na st2 = na st1 \<and> va st2 = va st1) \<or> accepts seq st1 c st2)"
proof -
  from assms obtain st1 where
    s1: "map_of (accept_state (perform cs s)) seq = Some st1" "np st0 \<le> np st1" "na st1 \<le> np st1"
    using acceptor_run [of s seq st0 cs] by auto
  from assms(3) have "acceptor_op c" by simp
  from acceptor_step [OF s1(1) s1(3) this] s1 show ?thesis
    by (auto simp: run_append)
qed

text \<open>
  The theorem at the default entry of instance 3, after an Accept numbered 5 for \<open>x\<close>
  and at a second Accept numbered 5 for \<open>y\<close>.
\<close>

theorem acceptor_entry_steps_witness:
  "map_of (accept_state default_peer) 3 = Some \<lparr>np = 0, na = 0, va = ''''\<rparr> \<and>
   list_all acceptor_op
     ([RecvAccept (from_b 1 (AcceptRequest 3 5 ''x''))] @
      [RecvAccept (from_b 2 (AcceptRequest 3 5 ''y''))]) \<and>
   (\<exists>st1 st2.
      map_of (accept_state (perform [RecvAccept (from_b 1 (AcceptRequest 3 5 ''x''))] default_peer)) 3
        = Some st1 \<and>
      map_of (accept_state (perform ([RecvAccept (from_b 1 (AcceptRequest 3 5 ''x''))] @
                                 [RecvAccept (from_b 2 (AcceptRequest 3 5 ''y''))]) default_peer)) 3
        = Some st2 \<and>
      np \<lparr>np = 0, na = 0, va = ''''\<rparr> \<le> np st1 \<and> na st1 \<le> np st1 \<and>
      np st1 \<le> np st2 \<and> na st2 \<le> np st2 \<and> na st1 \<le> na st2 \<and>
      ((na st2 = na st1 \<and> va st2 = va st1) \<or>
       accepts 3 st1 (RecvAccept (from_b 2 (AcceptRequest 3 5 ''y''))) st2))"
proof -
  have h1: "map_of (accept_state default_peer) 3 = Some \<lparr>np = 0, na = 0, va = ''''\<rparr>"
    by (simp add: default_peer_def abc_peer_def fresh_def)
  have h2: "na \<lparr>np = 0, na = 0, va = ''''\<rparr> \<le> np \<lparr>np = 0, na = 0, va = ''''\<rparr>"
    by simp
  have h3: "list_all acceptor_op
     ([RecvAccept (from_b 1 (AcceptRequest 3 5 ''x''))] @
      [RecvAccept (from_b 2 (AcceptRequest 3 5 ''y''))])"
    by simp
  from acceptor_entry_steps [OF h1 h2 h3] h1 h3 show ?thesis
    by blast
qed

text \<open>
  C6 as stated fails: after the Accept numbered 5 for \<open>x\<close> the entry of instance 3 is
  \<open>(5, 5, x)\<close>, and a second Accept with the same number 5, not a strictly higher
  one, replaces the value by \<open>y\<close>.
\<close>

theorem equal_numbered_accept_replaces_value:
  "map_of (accept_state (perform [RecvAccept (from_b 1 (AcceptRequest 3 5 ''x''))] default_peer)) 3
     = Some \<lparr>np = 5, na = 5, va = ''x''\<rparr> \<and>
   map_of (accept_state (perform [RecvAccept (from_b 1 (AcceptRequest 3 5 ''x'')),
                              RecvAccept (from_b 2 (AcceptRequest 3 5 ''y''))] default_peer)) 3
     = Some \<lparr>np = 5, na = 5, va = ''y''\<rparr>"
  by (simp add: recv_accept_def send_packet_to_def new_packet_def default_peer_def abc_peer_def
      fresh_def from_b_def Let_def)

section \<open>The proposer\<close>

lemma proposing_peer_eq:
  "propose_next (propose 12 ''y'') ready_peer =
    (Inr (Prepare_wait 12 ''y'' 6 0),
     ready_peer\<lparr>self_packet_id := 1, max_seq_seen := 12,
       accept_state := [(12, \<lparr>np = 6, na = 0, va = ''''\<rparr>)],
       propose_data := [12 \<mapsto> 0], infos := [new_info 1],
       out := Some [\<lparr>time = 0, pkt_size = 40, packet_id = 1, src = ''a'', dst = '''',
                    payload = MPrepareRequest (PrepareRequest 12 6)\<rparr>],
       timers := [(10, 12, ''y'')]\<rparr>)"
  by (simp add: propose_def broadcast_prepare_request_def recv_prepare_def send_packet_to_def
      new_packet_def with_payload_def ready_peer_def abc_peer_def fresh_def Let_def)

lemma prepared_peer_eq:
  "prepared_peer = proposing_peer\<lparr>infos := [\<lparr>info_packet_id = 1, maxna = 5, v1 = ''x'',
       prepare_count = 2, prepared = True, accept_count = 0, accepted = False\<rparr>]\<rparr>"
  unfolding prepared_peer_def proposing_peer_def proposing_peer_eq
  by (simp add: put_def from_b_def new_info_def
     recv_prepare_reply_def with_payload_def Let_def ready_peer_def abc_peer_def fresh_def)

text \<open>
  C2. The round of instance 12 was started for the value \<open>y\<close> with proposal 6; two of
  three peers replied affirmatively, one of them reporting the accepted pair \<open>(5, x)\<close>,
  so the round is prepared and has recorded \<open>maxna = 5\<close>, \<open>v1 = x\<close>. The generator's
  next stretch passes \<open>assert temp.prepared\<close> and broadcasts
  \<open>AcceptRequest(12, 6, "y")\<close>: the value given to \<open>propose\<close>, not the recorded
  \<open>x\<close>.
\<close>

theorem accept_phase_sends_own_value:
  "v1 (infos prepared_peer ! 0) = ''x'' \<and> maxna (infos prepared_peer ! 0) = 5 \<and>
   prepared (infos prepared_peer ! 0) \<and>
   fst (propose_next (Prepare_wait 12 ''y'' 6 0) prepared_peer) = Inr (Accept_wait 12 ''y'' 6 0) \<and>
   map_option last (out (snd (propose_next (Prepare_wait 12 ''y'' 6 0) prepared_peer))) =
     Some \<lparr>time = 0, pkt_size = 40, packet_id = 2, src = ''a'', dst = '''',
          payload = MAcceptRequest (AcceptRequest 12 6 ''y'')\<rparr>"
  unfolding prepared_peer_eq proposing_peer_def proposing_peer_eq
  by (simp add: broadcast_accept_request_def recv_accept_def send_packet_to_def
      new_packet_def with_payload_def ready_peer_def abc_peer_def fresh_def Let_def)

text \<open>
  A packet whose id differs from the id of the instance's round is dropped by \<open>put\<close>
  whatever its class, and nothing changes.
\<close>

lemma put_other_id_unchanged:
  assumes "propose_data s (instance_of (payload pkt)) = Some r"
    and "packet_id pkt \<noteq> info_packet_id (infos s ! r)"
  shows "snd (put pkt s) = s" and "dst pkt = '''' \<Longrightarrow> put pkt s = (Inr (), s)"
  using assms by (simp_all add: put_def)

text \<open>
  C3. While the peer's round for instance 12 carries the packet id 1, a Prepare for
  instance 12 that arrives from \<open>b\<close> with packet id 2 is dropped by \<open>put\<close> like a
  stale reply: \<open>put\<close> returns without calling \<open>recv_prepare\<close>, and nothing changes.
\<close>

theorem put_drops_request_on_token_mismatch:
  "put (from_b 2 (MPrepareRequest (PrepareRequest 12 9))) proposing_peer = (Inr (), proposing_peer)"
  unfolding proposing_peer_def proposing_peer_eq
  by (simp add: put_def from_b_def new_info_def ready_peer_def abc_peer_def fresh_def)

text \<open>
  C4. \<open>start\<close> returns normally and raises \<open>max_seq_seen\<close> to at least \<open>seq\<close>, and
  that is all it does: the generator made by \<open>self.propose(seq, v)\<close> is never advanced,
  so no packet is created or enqueued and no round is recorded.
\<close>

theorem start_only_raises_max_seq_seen:
  "start seq v s = (Inr (), s\<lparr>max_seq_seen := max (max_seq_seen s) seq\<rparr>) \<and>
   out (snd (start seq v s)) = out s \<and>
   self_packet_id (snd (start seq v s)) = self_packet_id s \<and>
   propose_data (snd (start seq v s)) = propose_data s"
  by (simp add: start_def Let_def max_def)

section \<open>Forgetting and status\<close>

text \<open>
  C8. With the done watermarks 4, 2 and 7 and no acceptor entry to delete, \<open>min()\<close>
  returns 4, two more than the lowest watermark: \<open>do_mem_shrink\<close> already returns the
  lowest watermark plus one, and \<open>min\<close> adds one again.
\<close>

theorem min_is_two_above_lowest_watermark:
  "do_mem_shrink watermarked_peer = (Inr 3, watermarked_peer) \<and>
   paxos_min watermarked_peer = (Inr 4, watermarked_peer)"
  by (simp add: paxos_min_def do_mem_shrink_def watermarked_peer_def abc_peer_def fresh_def)

text \<open>
  C10. Whatever calls a freshly constructed peer has served, \<open>done_seqs\<close> is still
  empty, so \<open>status(seq)\<close> raises \<open>ValueError\<close> from the minimum of an empty list
  and returns no fate.
\<close>

theorem status_raises_on_fresh_peer:
  "done_seqs (perform cs (fresh ps m ident restart dbg ch clk)) = [] \<and>
   status seq (perform cs (fresh ps m ident restart dbg ch clk)) =
     (Inl ValueError, perform cs (fresh ps m ident restart dbg ch clk))"
proof -
  have "length (done_seqs (perform cs (fresh ps m ident restart dbg ch clk))) = 0"
    by (simp add: run_done_len fresh_def)
  then show ?thesis
    by (simp add: status_def paxos_min_def do_mem_shrink_empty)
qed

theorem status_raises_on_fresh_peer_witness:
  "done_seqs (perform [Start 0 ''v'', RecvDecided (from_b 1 (DecidedRequest 0 1 0 ''v''))] abc_peer) = [] \<and>
   status 0 (perform [Start 0 ''v'', RecvDecided (from_b 1 (DecidedRequest 0 1 0 ''v''))] abc_peer) =
     (Inl ValueError, perform [Start 0 ''v'', RecvDecided (from_b 1 (DecidedRequest 0 1 0 ''v''))] abc_peer)"
  unfolding abc_peer_def
  by (rule status_raises_on_fresh_peer)

text \<open>
  C9, as the code has it. Whatever calls a freshly constructed peer has served,
  \<open>accept_state\<close> is still empty, and each read of \<open>accept_state[seq]\<close> raises
  \<open>KeyError\<close>: the first stretch of a \<open>propose\<close> generator (which leaves the peer
  untouched), \<open>recv_prepare\<close>, \<open>recv_accept\<close>, and \<open>recv_prepare_reply\<close> on a
  negative reply.
\<close>

theorem accept_state_reads_raise_KeyError:
  "accept_state (perform cs (fresh ps m ident restart dbg ch clk)) = [] \<and>
   propose_next (propose seq v) (perform cs (fresh ps m ident restart dbg ch clk)) =
     (Inl KeyError, perform cs (fresh ps m ident restart dbg ch clk)) \<and>
   fst (recv_prepare pkt (perform cs (fresh ps m ident restart dbg ch clk))) = Inl KeyError \<and>
   fst (recv_accept pkt' (perform cs (fresh ps m ident restart dbg ch clk))) = Inl KeyError \<and>
   fst (recv_prepare_reply (with_payload pkt'' (PrepareReply seq False n w))
          (perform cs (fresh ps m ident restart dbg ch clk))) = Inl KeyError"
proof -
  have e: "accept_state (perform cs (fresh ps m ident restart dbg ch clk)) = []"
    by (simp add: run_accept_empty fresh_def)
  have "fst (recv_prepare pkt (perform cs (fresh ps m ident restart dbg ch clk))) = Inl KeyError"
    using e by (cases "payload pkt") (simp add: recv_prepare_def Let_def)
  moreover
  have "fst (recv_accept pkt' (perform cs (fresh ps m ident restart dbg ch clk))) = Inl KeyError"
    using e by (cases "payload pkt'") (simp add: recv_accept_def)
  moreover
  have "fst (recv_prepare_reply (with_payload pkt'' (PrepareReply seq False n w))
          (perform cs (fresh ps m ident restart dbg ch clk))) = Inl KeyError"
    using e by (simp add: recv_prepare_reply_def with_payload_def split: option.splits)
  ultimately show ?thesis
    using e by (simp add: propose_def)
qed

theorem accept_state_reads_raise_KeyError_witness:
  "accept_state (perform [BroadcastPrepare 0 1] abc_peer) = [] \<and>
   propose_next (propose 0 ''v'') (perform [BroadcastPrepare 0 1] abc_peer) =
     (Inl KeyError, perform [BroadcastPrepare 0 1] abc_peer) \<and>
   fst (recv_prepare (from_b 1 (PrepareRequest 0 1)) (perform [BroadcastPrepare 0 1] abc_peer)) = Inl KeyError \<and>
   fst (recv_accept (from_b 2 (AcceptRequest 0 1 ''v'')) (perform [BroadcastPrepare 0 1] abc_peer)) = Inl KeyError \<and>
   fst (recv_prepare_reply (with_payload (from_b 3 ()) (PrepareReply 0 False 0 ''''))
          (perform [BroadcastPrepare 0 1] abc_peer)) = Inl KeyError"
  unfolding abc_peer_def
  by (rule accept_state_reads_raise_KeyError)

text \<open>
  C9 as stated fails in one place: the read in \<open>propose\<close> is not reached from
  \<open>start\<close>. On the fresh peer \<open>start(0, "v")\<close> returns normally and changes nothing.
\<close>

theorem start_returns_on_fresh_peer:
  "start 0 ''v'' abc_peer = (Inr (), abc_peer)"
  by (simp add: start_def Let_def abc_peer_def fresh_def)

section \<open>Counting replies\<close>

lemma half_real: "(real_of_int k > real n / 2) = (int n < 2 * k)"
proof -
  have "(real n / 2 < real_of_int k) = (real n < 2 * real_of_int k)"
    by (simp add: field_simps)
  also have "\<dots> = (real_of_int (int n) < real_of_int (2 * k))"
    by simp
  also have "\<dots> = (int n < 2 * k)"
    by (rule of_int_less_iff)
  finally show ?thesis .
qed

lemma count_prepare_ok_fields:
  "prepare_count (count_prepare_ok k n v t) = prepare_count t + 1"
  "prepared (count_prepare_ok k n v t) = (prepared t \<or> int k < 2 * (prepare_count t + 1))"
  "accept_count (count_prepare_ok k n v t) = accept_count t"
  "accepted (count_prepare_ok k n v t) = accepted t"
  "info_packet_id (count_prepare_ok k n v t) = info_packet_id t"
  by (simp_all add: count_prepare_ok_def half_real Let_def)

lemma count_accept_ok_fields:
  "accept_count (count_accept_ok k t) = accept_count t + 1"
  "accepted (count_accept_ok k t) = (accepted t \<or> int k < 2 * (accept_count t + 1))"
  "prepare_count (count_accept_ok k t) = prepare_count t"
  "prepared (count_accept_ok k t) = prepared t"
  "info_packet_id (count_accept_ok k t) = info_packet_id t"
  by (simp_all add: count_accept_ok_def half_real Let_def)

lemma recv_prepare_reply_infos:
  "payload pkt = PrepareReply i ok n v \<Longrightarrow>
   infos (snd (recv_prepare_reply pkt s)) =
     (case propose_data s i of
        None \<Rightarrow> infos s
      | Some r \<Rightarrow> if ok then (infos s)[r := count_prepare_ok (length (peers s)) n v (infos s ! r)]
                  else infos s)"
  by (simp add: recv_prepare_reply_def count_prepare_ok_def Let_def split: option.splits)

lemma recv_accept_reply_infos:
  "payload pkt = AcceptReply i ok \<Longrightarrow>
   infos (snd (recv_accept_reply pkt s)) =
     (case propose_data s i of
        None \<Rightarrow> infos s
      | Some r \<Rightarrow> if ok then (infos s)[r := count_accept_ok (length (peers s)) (infos s ! r)]
                  else infos s)"
  by (simp add: recv_accept_reply_def count_accept_ok_def Let_def split: option.splits)

lemma round_inv_same:
  assumes "round_inv s seq r tok p a"
    and "propose_data s' = propose_data s" and "infos s' = infos s" and "peers s' = peers s"
  shows "round_inv s' seq r tok p a"
  using assms by (simp add: round_inv_def sole_ref_def)

lemma round_inv_prepare_reply:
  assumes inv: "round_inv s seq r tok p a" and p: "payload pkt = PrepareReply i ok n v"
  shows "round_inv (snd (recv_prepare_reply pkt s)) seq r tok
           (p + (if i = seq \<and> ok then 1 else 0)) a"
proof -
  let ?s' = "snd (recv_prepare_reply pkt s)"
  have pd: "propose_data ?s' = propose_data s" and ps: "peers ?s' = peers s"
    and len: "length (infos ?s') = length (infos s)"
    by (simp_all add: recv_prepare_reply_frame)
  from inv have sole: "sole_ref s seq r" by (simp add: round_inv_def)
  then have r: "propose_data s seq = Some r" "r < length (infos s)"
    and uniq: "\<And>j. propose_data s j = Some r \<Longrightarrow> j = seq"
    by (simp_all add: sole_ref_def)
  have sole': "sole_ref ?s' seq r"
    using sole by (simp add: sole_ref_def pd len)
  show ?thesis
  proof (cases "i = seq \<and> ok")
    case True
    then have "infos ?s' ! r = count_prepare_ok (length (peers s)) n v (infos s ! r)"
      using r by (simp add: recv_prepare_reply_infos [OF p])
    then show ?thesis
      using inv sole' True
      by (auto simp: round_inv_def count_prepare_ok_fields ps)
  next
    case False
    have "infos ?s' ! r = infos s ! r"
    proof (cases "propose_data s i")
      case None
      then show ?thesis by (simp add: recv_prepare_reply_infos [OF p])
    next
      case (Some r')
      show ?thesis
      proof (cases ok)
        case True
        with False have "i \<noteq> seq" by simp
        with Some uniq have "r' \<noteq> r" by auto
        then show ?thesis using Some by (simp add: recv_prepare_reply_infos [OF p])
      next
        case False
        then show ?thesis using Some by (simp add: recv_prepare_reply_infos [OF p])
      qed
    qed
    then show ?thesis
      using inv sole' False by (simp add: round_inv_def ps)
  qed
qed

lemma round_inv_accept_reply:
  assumes inv: "round_inv s seq r tok p a" and p: "payload pkt = AcceptReply i ok"
  shows "round_inv (snd (recv_accept_reply pkt s)) seq r tok p
           (a + (if i = seq \<and> ok then 1 else 0))"
proof -
  let ?s' = "snd (recv_accept_reply pkt s)"
  have pd: "propose_data ?s' = propose_data s" and ps: "peers ?s' = peers s"
    and len: "length (infos ?s') = length (infos s)"
    by (simp_all add: recv_accept_reply_frame)
  from inv have sole: "sole_ref s seq r" by (simp add: round_inv_def)
  then have r: "propose_data s seq = Some r" "r < length (infos s)"
    and uniq: "\<And>j. propose_data s j = Some r \<Longrightarrow> j = seq"
    by (simp_all add: sole_ref_def)
  have sole': "sole_ref ?s' seq r"
    using sole by (simp add: sole_ref_def pd len)
  show ?thesis
  proof (cases "i = seq \<and> ok")
    case True
    then have "infos ?s' ! r = count_accept_ok (length (peers s)) (infos s ! r)"
      using r by (simp add: recv_accept_reply_infos [OF p])
    then show ?thesis
      using inv sole' True
      by (auto simp: round_inv_def count_accept_ok_fields ps)
  next
    case False
    have "infos ?s' ! r = infos s ! r"
    proof (cases "propose_data s i")
      case None
      then show ?thesis by (simp add: recv_accept_reply_infos [OF p])
    next
      case (Some r')
      show ?thesis
      proof (cases ok)
        case True
        with False have "i \<noteq> seq" by simp
        with Some uniq have "r' \<noteq> r" by auto
        then show ?thesis using Some by (simp add: recv_accept_reply_infos [OF p])
      next
        case False
        then show ?thesis using Some by (simp add: recv_accept_reply_infos [OF p])
      qed
    qed
    then show ?thesis
      using inv sole' False by (simp add: round_inv_def ps)
  qed
qed

lemma round_inv_recv:
  assumes inv: "round_inv s seq r tok p a"
  shows "round_inv (snd (recv_prepare pkt1 s)) seq r tok p a"
    and "round_inv (snd (recv_accept pkt2 s)) seq r tok p a"
    and "round_inv (snd (recv_decided_request pkt3 s)) seq r tok p a"
  by (rule round_inv_same [OF inv];
      simp add: recv_prepare_frame recv_accept_frame recv_decided_request_frame)+

lemma round_inv_put:
  assumes inv: "round_inv s seq r tok p a"
  shows "round_inv (snd (put pkt s)) seq r tok
           (p + (if prepare_ack seq tok (Put pkt) then 1 else 0))
           (a + (if accept_ack seq tok (Put pkt) then 1 else 0))"
proof -
  from inv have r: "propose_data s seq = Some r" and tok: "info_packet_id (infos s ! r) = tok"
    by (simp_all add: round_inv_def sole_ref_def)
  show ?thesis
  proof (cases "dst pkt = '''' \<and> propose_data s (instance_of (payload pkt)) \<noteq> None \<and>
                packet_id pkt = info_packet_id (infos s ! the (propose_data s (instance_of (payload pkt))))")
    case False
    then have "snd (put pkt s) = s"
      by (auto simp: put_def split: option.splits)
    moreover have "\<not> prepare_ack seq tok (Put pkt)"
      using False r tok
      by (auto split: message.splits PrepareReply.splits)
    moreover have "\<not> accept_ack seq tok (Put pkt)"
      using False r tok
      by (auto split: message.splits AcceptReply.splits)
    ultimately show ?thesis
      using inv by (simp del: prepare_ack.simps accept_ack.simps)
  next
    case True
    then obtain r' where r': "propose_data s (instance_of (payload pkt)) = Some r'"
      and id: "packet_id pkt = info_packet_id (infos s ! r')" and d: "dst pkt = ''''"
      by auto
    show ?thesis
    proof (cases "payload pkt")
      case (MPrepareRequest m)
      then show ?thesis
        using round_inv_recv(1) [OF inv] r' id d by (simp add: put_def)
    next
      case (MAcceptRequest m)
      then show ?thesis
        using round_inv_recv(2) [OF inv] r' id d by (simp add: put_def)
    next
      case (MDecidedRequest m)
      then show ?thesis
        using round_inv_recv(3) [OF inv] r' id d by (simp add: put_def)
    next
      case (MDecidedReply m)
      then show ?thesis
        using inv r' id d by (simp add: put_def)
    next
      case (MPrepareReply m)
      obtain i ok n v where m: "m = PrepareReply i ok n v" by (cases m)
      have pl: "payload (with_payload pkt m) = PrepareReply i ok n v"
        by (simp add: with_payload_def m)
      have "i = seq \<Longrightarrow> packet_id pkt = tok"
        using r r' id tok MPrepareReply m by simp
      then show ?thesis
        using round_inv_prepare_reply [OF inv pl, of ] r' id d MPrepareReply m
        by (auto simp: put_def)
    next
      case (MAcceptReply m)
      obtain i ok where m: "m = AcceptReply i ok" by (cases m)
      have pl: "payload (with_payload pkt m) = AcceptReply i ok"
        by (simp add: with_payload_def m)
      have "i = seq \<Longrightarrow> packet_id pkt = tok"
        using r r' id tok MAcceptReply m by simp
      then show ?thesis
        using round_inv_accept_reply [OF inv pl] r' id d MAcceptReply m
        by (auto simp: put_def)
    qed
  qed
qed

lemma round_inv_exec:
  assumes inv: "round_inv s seq r tok p a" and c: "delivery c"
  shows "round_inv (exec c s) seq r tok
           (p + (if prepare_ack seq tok c then 1 else 0))
           (a + (if accept_ack seq tok c then 1 else 0))"
proof (cases c)
  case (RecvPrepare pkt)
  then show ?thesis using round_inv_recv(1) [OF inv] by simp
next
  case (RecvAccept pkt)
  then show ?thesis using round_inv_recv(2) [OF inv] by simp
next
  case (RecvDecided pkt)
  then show ?thesis using round_inv_recv(3) [OF inv] by simp
next
  case (RecvPrepareReply pkt)
  obtain i ok n v where p: "payload pkt = PrepareReply i ok n v" by (cases "payload pkt")
  show ?thesis using round_inv_prepare_reply [OF inv p] by (simp add: RecvPrepareReply p)
next
  case (RecvAcceptReply pkt)
  obtain i ok where p: "payload pkt = AcceptReply i ok" by (cases "payload pkt")
  show ?thesis using round_inv_accept_reply [OF inv p] by (simp add: RecvAcceptReply p)
next
  case (Put pkt)
  then show ?thesis using round_inv_put [OF inv, of pkt] by simp
qed (use c in simp_all)

lemma round_inv_run:
  assumes "round_inv s seq r tok p a" and "list_all delivery cs"
  shows "round_inv (perform cs s) seq r tok
           (p + length (filter (prepare_ack seq tok) cs))
           (a + length (filter (accept_ack seq tok) cs))"
  using assms
proof (induction cs arbitrary: s p a)
  case Nil
  then show ?case by simp
next
  case (Cons c cs)
  from Cons.prems have d: "delivery c" and ds: "list_all delivery cs" by simp_all
  have e1: "p + length (filter (prepare_ack seq tok) (c # cs)) =
      (p + (if prepare_ack seq tok c then 1 else 0)) + length (filter (prepare_ack seq tok) cs)"
    by simp
  have e2: "a + length (filter (accept_ack seq tok) (c # cs)) =
      (a + (if accept_ack seq tok c then 1 else 0)) + length (filter (accept_ack seq tok) cs)"
    by simp
  show ?case
    by (simp only: e1 e2 perform.simps)
       (rule Cons.IH [OF round_inv_exec [OF Cons.prems(1) d] ds])
qed

lemma peers_run: "list_all delivery cs \<Longrightarrow> peers (perform cs s) = peers s"
proof (induction cs arbitrary: s)
  case Nil
  then show ?case by simp
next
  case (Cons c cs)
  then have "peers (exec c s) = peers s"
    by (cases c)
       (simp_all add: recv_prepare_frame recv_accept_frame recv_prepare_reply_frame
          recv_accept_reply_frame recv_decided_request_frame put_def
          split: option.splits message.splits)
  with Cons show ?case by simp
qed

lemma proposing_peer_val:
  "proposing_peer = ready_peer\<lparr>self_packet_id := 1, max_seq_seen := 12,
       accept_state := [(12, \<lparr>np = 6, na = 0, va = ''''\<rparr>)],
       propose_data := [12 \<mapsto> 0], infos := [new_info 1],
       out := Some [\<lparr>time = 0, pkt_size = 40, packet_id = 1, src = ''a'', dst = '''',
                    payload = MPrepareRequest (PrepareRequest 12 6)\<rparr>],
       timers := [(10, 12, ''y'')]\<rparr>"
  by (simp add: proposing_peer_def proposing_peer_eq)

text \<open>
  C7, as the code has it. Take a round of instance \<open>seq\<close> as
  \<open>broadcast_prepare_request\<close> creates it (counters zero, flags false, packet id
  \<open>tok\<close>) and any sequence of deliveries. The counters are the numbers of affirmative
  Prepare and Accept replies tallied in the round, and a flag is set only when its
  counter has reached \<open>len(peers) div 2 + 1\<close>, strictly more than half of the peer
  count. The count is one per delivered reply; the handlers do not look at who sent it.
\<close>

theorem flags_need_quorum_of_replies:
  assumes "sole_ref s seq r" and "infos s ! r = new_info tok" and "list_all delivery cs"
  shows "prepare_count (infos (perform cs s) ! r) = int (length (filter (prepare_ack seq tok) cs)) \<and>
         accept_count (infos (perform cs s) ! r) = int (length (filter (accept_ack seq tok) cs)) \<and>
         (prepared (infos (perform cs s) ! r) \<longrightarrow>
            length (peers s) div 2 + 1 \<le> length (filter (prepare_ack seq tok) cs)) \<and>
         (accepted (infos (perform cs s) ! r) \<longrightarrow>
            length (peers s) div 2 + 1 \<le> length (filter (accept_ack seq tok) cs))"
proof -
  from assms(1,2) have "round_inv s seq r tok 0 0"
    by (simp add: round_inv_def new_info_def)
  from round_inv_run [OF this assms(3)] peers_run [OF assms(3), of s]
  show ?thesis
    by (auto simp: round_inv_def)
qed

text \<open>The theorem at the round of instance 12 and its two affirmative replies.\<close>

theorem flags_need_quorum_of_replies_witness:
  "sole_ref proposing_peer 12 0 \<and> infos proposing_peer ! 0 = new_info 1 \<and>
   list_all delivery
     [Put (from_b 1 (MPrepareReply (PrepareReply 12 True 5 ''x''))),
      Put \<lparr>time = 0, pkt_size = 40, packet_id = 1, src = ''c'', dst = '''',
           payload = MPrepareReply (PrepareReply 12 True 0 '''')\<rparr>] \<and>
   prepared (infos prepared_peer ! 0) \<and>
   prepare_count (infos prepared_peer ! 0) = 2 \<and>
   length (peers proposing_peer) div 2 + 1 \<le>
     length (filter (prepare_ack 12 1)
       [Put (from_b 1 (MPrepareReply (PrepareReply 12 True 5 ''x''))),
        Put \<lparr>time = 0, pkt_size = 40, packet_id = 1, src = ''c'', dst = '''',
             payload = MPrepareReply (PrepareReply 12 True 0 '''')\<rparr>])"
proof -
  let ?cs = "[Put (from_b 1 (MPrepareReply (PrepareReply 12 True 5 ''x''))),
      Put \<lparr>time = 0, pkt_size = 40, packet_id = 1, src = ''c'', dst = '''',
           payload = MPrepareReply (PrepareReply 12 True 0 '''')\<rparr>]"
  have h1: "sole_ref proposing_peer 12 0"
    by (simp add: proposing_peer_val sole_ref_def)
  have h2: "infos proposing_peer ! 0 = new_info 1"
    by (simp add: proposing_peer_val)
  have h3: "list_all delivery ?cs"
    by simp
  have p: "prepared (infos (perform ?cs proposing_peer) ! 0)"
    using prepared_peer_eq by (simp add: prepared_peer_def)
  have n: "length (filter (prepare_ack 12 1) ?cs) = 2"
    by (simp add: from_b_def)
  from flags_need_quorum_of_replies [OF h1 h2 h3] p n h1 h2 h3 show ?thesis
    by (simp add: prepared_peer_def)
qed

text \<open>
  C7 as stated fails: in the cluster of three, the same affirmative Prepare reply of
  peer \<open>b\<close> delivered twice sets \<open>prepared\<close>, with one distinct replier.
\<close>

theorem one_replier_counted_twice:
  "prepared (infos (perform [Put (from_b 1 (MPrepareReply (PrepareReply 12 True 0 ''''))),
                         Put (from_b 1 (MPrepareReply (PrepareReply 12 True 0 '''')))]
                     proposing_peer) ! 0) \<and>
   repliers (prepare_ack 12 1)
     [Put (from_b 1 (MPrepareReply (PrepareReply 12 True 0 ''''))),
      Put (from_b 1 (MPrepareReply (PrepareReply 12 True 0 '''')))] = [''b''] \<and>
   length (peers proposing_peer) = 3"
  unfolding proposing_peer_val
  by (simp add: repliers_def put_def from_b_def new_info_def recv_prepare_reply_def
      with_payload_def Let_def ready_peer_def abc_peer_def fresh_def)

section \<open>Agreement across peers\<close>

text \<open>
  Peers as \<open>__init__\<close> leaves them never report a decision, whatever calls they serve:
  \<open>status\<close> raises. A run in which two peers report one needs peers whose
  \<open>done_seqs\<close> and \<open>accept_state\<close> are filled.
\<close>

lemma fresh_peer_reports_nothing:
  "fst (status seq (perform cs (fresh ps m ident restart dbg ch clk))) \<noteq> Inr (DECIDED, v)"
proof -
  have "length (done_seqs (perform cs (fresh ps m ident restart dbg ch clk))) = 0"
    by (simp add: run_done_len fresh_def)
  then show ?thesis
    by (simp add: status_def paxos_min_def do_mem_shrink_empty)
qed


end
